theory Spec2Isabelle
  imports Complex_Main "HOL-Library.Word" "HOL-Library.Log_Nat"
begin

unbundle bit_operations_syntax

section \<open>Machine types of \<^verbatim>\<open>oss_src/util/cityhash_gl.cpp\<close>\<close>

type_synonym uint64_t = "64 word"
type_synonym uint128_t = "128 word"
type_synonym size_t = "64 word"

section \<open>Hashing of flexible values and of vectors of them\<close>

text \<open>
  \<^verbatim>\<open>cityhash_gl.cpp\<close> calls five functions that are declared in headers outside the
  source file: the two digest methods of \<^verbatim>\<open>flexible_type\<close>, the overload of
  \<^verbatim>\<open>hash128\<close> that overload resolution selects for the \<^verbatim>\<open>size_t\<close> argument
  \<^verbatim>\<open>v.size()\<close>, \<^verbatim>\<open>hash128_combine\<close>, and the overload of \<^verbatim>\<open>hash64\<close> that takes a
  \<^verbatim>\<open>uint128_t\<close>. They are parameters of the model, collected in one record; the type
  \<open>'ft\<close> stands for \<^verbatim>\<open>flexible_type\<close>, of which nothing but the two methods is used.
\<close>

record 'ft externals =
  ft_hash128 :: "'ft \<Rightarrow> uint128_t"
  ft_hash :: "'ft \<Rightarrow> uint64_t"
  hash128_size_t :: "size_t \<Rightarrow> uint128_t"
  hash128_combine :: "uint128_t \<Rightarrow> uint128_t \<Rightarrow> uint128_t"
  hash64_uint128 :: "uint128_t \<Rightarrow> uint64_t"

text \<open>\<^verbatim>\<open>uint128_t hash128(const flexible_type& v) { return v.hash128(); }\<close>\<close>

definition hash128 :: "'ft externals \<Rightarrow> 'ft \<Rightarrow> uint128_t" where
  "hash128 X v = ft_hash128 X v"

text \<open>\<^verbatim>\<open>uint64_t hash64(const flexible_type& v) { return v.hash(); }\<close>\<close>

definition hash64 :: "'ft externals \<Rightarrow> 'ft \<Rightarrow> uint64_t" where
  "hash64 X v = ft_hash X v"

text \<open>
  \<^verbatim>\<open>v.size()\<close>: the number of elements as a \<^verbatim>\<open>size_t\<close>. A vector never holds
  \<open>2 ^ 64\<close> elements or more, so the conversion loses nothing on a list that is a vector.
\<close>

definition size_vec :: "'ft list \<Rightarrow> size_t" where
  "size_vec v = word_of_nat (length v)"

text \<open>
  The range-based loop \<^verbatim>\<open>for(const flexible_type& x : v) h = hash128_combine(h, x.hash128());\<close>
  with the running digest \<open>h\<close> passed along.
\<close>

fun hash128_loop :: "'ft externals \<Rightarrow> uint128_t \<Rightarrow> 'ft list \<Rightarrow> uint128_t" where
  "hash128_loop X h [] = h"
| "hash128_loop X h (x # xs) = hash128_loop X (hash128_combine X h (ft_hash128 X x)) xs"

text \<open>\<^verbatim>\<open>uint128_t hash128(const std::vector<flexible_type>& v)\<close>\<close>

definition hash128_vec :: "'ft externals \<Rightarrow> 'ft list \<Rightarrow> uint128_t" where
  "hash128_vec X v = (let h = hash128_size_t X (size_vec v) in hash128_loop X h v)"

text \<open>\<^verbatim>\<open>uint64_t hash64(const std::vector<flexible_type>& v) { return hash64(hash128(v)); }\<close>\<close>

definition hash64_vec :: "'ft externals \<Rightarrow> 'ft list \<Rightarrow> uint64_t" where
  "hash64_vec X v = hash64_uint128 X (hash128_vec X v)"

text \<open>
  The sequence digest in the specification's words: seed with the hash of the element
  count, then fold \<open>combine128\<close> over the elements' 128-bit digests from the left.
\<close>

definition spec_hash128_seq :: "'ft externals \<Rightarrow> 'ft list \<Rightarrow> uint128_t" where
  "spec_hash128_seq X seq =
     foldl (\<lambda>h x. hash128_combine X h (hash128 X x)) (hash128_size_t X (word_of_nat (length seq))) seq"

section \<open>The type \<^verbatim>\<open>double\<close>\<close>

text \<open>
  \<^verbatim>\<open>hash64_proportion_cutoff\<close> takes a \<^verbatim>\<open>double\<close>, compares it with \<^verbatim>\<open>0.0\<close> and
  \<^verbatim>\<open>1.0\<close>, multiplies it by \<^verbatim>\<open>double(uint64_t(1) << 63)\<close> and converts the product to
  \<^verbatim>\<open>uint64_t\<close>. The model is the IEEE 754 binary64 format with the default rounding
  (to nearest, ties to even), which is what the platforms of the library compute with:
  a sign bit, eleven bits of biased exponent and fifty-two bits of fraction. Every value
  of the type below is a bit pattern of a \<^verbatim>\<open>double\<close>, and every bit pattern is one.
\<close>

datatype double = Double (sign_bit: bool) (biased_exp: "11 word") (fraction: "52 word")

definition is_nan :: "double \<Rightarrow> bool" where
  "is_nan d = (biased_exp d = 2047 \<and> fraction d \<noteq> 0)"

definition is_inf :: "double \<Rightarrow> bool" where
  "is_inf d = (biased_exp d = 2047 \<and> fraction d = 0)"

definition is_finite :: "double \<Rightarrow> bool" where
  "is_finite d = (biased_exp d \<noteq> 2047)"

text \<open>
  A finite \<open>d\<close> is the number \<open>\<plusminus> significand d * 2 ^ exponent d\<close>: the hidden bit
  is set unless the biased exponent is zero (a subnormal number or a zero).
\<close>

definition significand :: "double \<Rightarrow> nat" where
  "significand d = (if biased_exp d = 0 then unat (fraction d) else 2 ^ 52 + unat (fraction d))"

definition exponent :: "double \<Rightarrow> int" where
  "exponent d = (if biased_exp d = 0 then - 1074 else uint (biased_exp d) - 1075)"

text \<open>
  Comparison goes through an integer: \<open>order_key d\<close> is the value of \<open>d\<close> in units of
  \<open>2 ^ - 1074\<close>, the smallest positive \<^verbatim>\<open>double\<close>. Both zeros have the key \<open>0\<close>. The
  same formula gives the infinities the keys \<open>\<plusminus> 2 ^ 2098\<close>, beyond every finite
  value, so that it orders all values but the NaNs, with which every comparison is false.
\<close>

definition order_key :: "double \<Rightarrow> int" where
  "order_key d =
     (if sign_bit d then - 1 else 1) * (int (significand d) * 2 ^ nat (exponent d + 1074))"

text \<open>The operators \<^verbatim>\<open><=\<close> and \<^verbatim>\<open>>=\<close> on \<^verbatim>\<open>double\<close>.\<close>

definition double_le :: "double \<Rightarrow> double \<Rightarrow> bool" where
  "double_le a b = (\<not> is_nan a \<and> \<not> is_nan b \<and> order_key a \<le> order_key b)"

definition double_ge :: "double \<Rightarrow> double \<Rightarrow> bool" where
  "double_ge a b = double_le b a"

definition quiet_nan :: double where
  "quiet_nan = Double False 2047 (push_bit 51 1)"

definition infinity :: "bool \<Rightarrow> double" where
  "infinity s = Double s 2047 0"

text \<open>
  \<open>round_half_even m k\<close> is \<open>m / 2 ^ k\<close> rounded to the nearest natural number, a tie
  going to the even one.
\<close>

definition round_half_even :: "nat \<Rightarrow> nat \<Rightarrow> nat" where
  "round_half_even m k =
     (let t = m div 2 ^ k; r = m mod 2 ^ k; h = 2 ^ (k - 1)
      in if h < r \<or> (r = h \<and> odd t) then t + 1 else t)"

text \<open>
  \<open>round_to_double s m e\<close> is the \<^verbatim>\<open>double\<close> nearest to \<open>\<plusminus> m * 2 ^ e\<close>. The exponent
  \<open>q\<close> of the result's last place keeps fifty-three bits of \<open>m\<close>, but is not below the
  subnormal exponent; \<open>m\<close> is shifted to it, rounding what is shifted out; the shifted
  significand is added to the exponent field, so that a carry out of the fraction moves
  into the exponent; a result beyond the largest finite number is an infinity.
\<close>

definition round_to_double :: "bool \<Rightarrow> nat \<Rightarrow> int \<Rightarrow> double" where
  "round_to_double s m e =
     (if m = 0 then Double s 0 0
      else
        let q = max (e + bitlen (int m) - 53) (- 1074);
            m' = (if q \<le> e then m * 2 ^ nat (e - q) else round_half_even m (nat (q - e)));
            b = nat (q + 1074) * 2 ^ 52 + m'
        in if 2047 * 2 ^ 52 \<le> b then infinity s
           else Double s (word_of_nat (b div 2 ^ 52)) (word_of_nat (b mod 2 ^ 52)))"

text \<open>
  The operator \<^verbatim>\<open>*\<close> on \<^verbatim>\<open>double\<close>. Which NaN a product is differs between
  processors; nothing below depends on more than its being one.
\<close>

definition double_mul :: "double \<Rightarrow> double \<Rightarrow> double" where
  "double_mul a b =
     (let s = (sign_bit a \<noteq> sign_bit b)
      in if is_nan a \<or> is_nan b then quiet_nan
         else if is_inf a \<or> is_inf b then
           (if (is_finite a \<and> significand a = 0) \<or> (is_finite b \<and> significand b = 0)
            then quiet_nan else infinity s)
         else round_to_double s (significand a * significand b) (exponent a + exponent b))"

text \<open>The conversion \<^verbatim>\<open>double(x)\<close> of a \<^verbatim>\<open>uint64_t\<close>.\<close>

definition double_of_uint64 :: "uint64_t \<Rightarrow> double" where
  "double_of_uint64 x = round_to_double False (unat x) 0"

text \<open>
  The conversion \<^verbatim>\<open>uint64_t(d)\<close> of a \<^verbatim>\<open>double\<close> drops the fractional part. C++ leaves
  the behaviour undefined when the truncated value is not a \<^verbatim>\<open>uint64_t\<close>, that is for a
  NaN, an infinity, a value of \<open>2 ^ 64\<close> or more and a value of \<open>- 1\<close> or less: the model
  returns \<open>None\<close> there.
\<close>

definition uint64_of_double :: "double \<Rightarrow> uint64_t option" where
  "uint64_of_double d =
     (if \<not> is_finite d then None
      else
        let k = (if 0 \<le> exponent d then significand d * 2 ^ nat (exponent d)
                 else significand d div 2 ^ nat (- exponent d))
        in if k = 0 then Some 0
           else if sign_bit d \<or> 2 ^ 64 \<le> k then None
           else Some (word_of_nat k))"

text \<open>The literals \<^verbatim>\<open>0.0\<close> and \<^verbatim>\<open>1.0\<close>.\<close>

definition d_0_0 :: double where
  "d_0_0 = Double False 0 0"

definition d_1_0 :: double where
  "d_1_0 = Double False 1023 0"

section \<open>\<^verbatim>\<open>hash64_proportion_cutoff\<close>\<close>

text \<open>
  How a call can end without a result: at one of the two assertions, with the two
  operands of the failed comparison (the offending value and the bound), or at a
  conversion whose behaviour is undefined.
\<close>

datatype failure =
    DASSERT_GE_failed double double
  | DASSERT_LE_failed double double
  | Undefined_conversion double

text \<open>\<^verbatim>\<open>const uint64_t clip_0 = uint64_t(1) << 63;\<close>\<close>

definition clip_0 :: uint64_t where
  "clip_0 = push_bit 63 1"

text \<open>
  \<^verbatim>\<open>const uint64_t clip_1 = std::numeric_limits<uint64_t>::max() - clip_0;\<close> The
  largest \<^verbatim>\<open>uint64_t\<close> is the word \<open>- 1\<close>, all bits set.
\<close>

definition clip_1 :: uint64_t where
  "clip_1 = - 1 - clip_0"

text \<open>
  The returned expression \<^verbatim>\<open>std::min(clip_0, x_half) + std::min(clip_1, x_half)\<close>, as a
  function of \<open>x_half\<close>; \<open>+\<close> is the wrapping addition of \<^verbatim>\<open>uint64_t\<close>.
\<close>

definition clipped_sum :: "uint64_t \<Rightarrow> uint64_t" where
  "clipped_sum x_half = min clip_0 x_half + min clip_1 x_half"

text \<open>
  Modelled from the spec: the macros \<^verbatim>\<open>DASSERT_GE\<close> and \<^verbatim>\<open>DASSERT_LE\<close>, which
  \<^verbatim>\<open>logger/assertions.hpp\<close> declares; the header is not among the sources at hand. By
  the specification a violated precondition meets an assertion-style fatal check, which
  ends the call with a diagnostic that identifies the violated bound and the offending
  value. By their names the two are the debug variants of the assertion macros, so
  whether a build checks them is the parameter \<open>dassert\<close> of the model. \<open>None\<close> says
  that the call goes on.
\<close>

definition DASSERT_GE :: "bool \<Rightarrow> double \<Rightarrow> double \<Rightarrow> failure option" where
  "DASSERT_GE dassert val1 val2 =
     (if dassert \<and> \<not> double_ge val1 val2 then Some (DASSERT_GE_failed val1 val2) else None)"

definition DASSERT_LE :: "bool \<Rightarrow> double \<Rightarrow> double \<Rightarrow> failure option" where
  "DASSERT_LE dassert val1 val2 =
     (if dassert \<and> \<not> double_le val1 val2 then Some (DASSERT_LE_failed val1 val2) else None)"

text \<open>
  \<^verbatim>\<open>uint64_t hash64_proportion_cutoff(double proportion)\<close>: the two assertions, then
  \<^verbatim>\<open>uint64_t x_half = uint64_t(proportion * double(uint64_t(1) << 63));\<close> and the
  clipped sum.
\<close>

definition hash64_proportion_cutoff :: "bool \<Rightarrow> double \<Rightarrow> failure + uint64_t" where
  "hash64_proportion_cutoff dassert proportion =
     (case DASSERT_GE dassert proportion d_0_0 of
        Some f \<Rightarrow> Inl f
      | None \<Rightarrow>
          (case DASSERT_LE dassert proportion d_1_0 of
             Some f \<Rightarrow> Inl f
           | None \<Rightarrow>
               (case uint64_of_double
                       (double_mul proportion (double_of_uint64 (push_bit 63 1))) of
                  None \<Rightarrow> Inl (Undefined_conversion proportion)
                | Some x_half \<Rightarrow> Inr (clipped_sum x_half))))"

section \<open>The specification's notions\<close>

text \<open>The real number that a finite \<^verbatim>\<open>double\<close> stands for.\<close>

definition valof :: "double \<Rightarrow> real" where
  "valof d = (if sign_bit d then - 1 else 1) * real (significand d) * 2 powi exponent d"

text \<open>A proportion in \<open>[0.0, 1.0]\<close>: a number, not below zero and not above one.\<close>

definition in_unit_interval :: "double \<Rightarrow> bool" where
  "in_unit_interval p = (is_finite p \<and> 0 \<le> valof p \<and> valof p \<le> 1)"

text \<open>
  The specification's \<open>x_half\<close>: the product of the proportion and \<open>2 ^ 63\<close> as real
  numbers, its fractional part dropped, as an unsigned 64-bit integer.
\<close>

definition spec_x_half :: "double \<Rightarrow> uint64_t" where
  "spec_x_half p = word_of_int \<lfloor>valof p * 2 ^ 63\<rfloor>"

section \<open>Some values of type \<^verbatim>\<open>double\<close>\<close>

text \<open>
  The doubles nearest to \<open>- 0.1\<close>, \<open>0.1\<close>, \<open>1.1\<close>, and \<open>0.25\<close>, \<open>0.75\<close>, by their
  bit patterns \<^verbatim>\<open>0xBFB999999999999A\<close>, \<^verbatim>\<open>0x3FB999999999999A\<close>, \<^verbatim>\<open>0x3FF199999999999A\<close>,
  \<^verbatim>\<open>0x3FD0000000000000\<close> and \<^verbatim>\<open>0x3FE8000000000000\<close>.
\<close>

definition d_minus_0_1 :: double where
  "d_minus_0_1 = Double True 1019 0x999999999999A"

definition d_0_1 :: double where
  "d_0_1 = Double False 1019 0x999999999999A"

definition d_1_1 :: double where
  "d_1_1 = Double False 1023 0x199999999999A"

definition d_0_25 :: double where
  "d_0_25 = Double False 1021 0"

definition d_0_75 :: double where
  "d_0_75 = Double False 1022 0x8000000000000"

section \<open>Properties of the hash functions\<close>

lemma hash128_loop_foldl:
  "hash128_loop X h v = foldl (\<lambda>h x. hash128_combine X h (ft_hash128 X x)) h v"
  by (induction v arbitrary: h) simp_all

text \<open>
  Claim C5. For every sequence, the 128-bit digest of the vector is the left fold that
  starts from the hash of the element count and combines, element by element and in
  order, the running digest with the element's 128-bit digest.
\<close>

theorem hash128_vec_is_seeded_fold:
  "hash128_vec X seq = spec_hash128_seq X seq"
  by (simp add: hash128_vec_def spec_hash128_seq_def size_vec_def hash128_def
      hash128_loop_foldl)

text \<open>
  Claim C6. For every sequence, the 64-bit digest of the vector is the 128-to-64-bit
  reduction of its 128-bit digest; it is not computed on a path of its own.
\<close>

theorem hash64_vec_reduces_hash128_vec:
  "hash64_vec X seq = hash64_uint128 X (hash128_vec X seq)"
  by (simp add: hash64_vec_def)

text \<open>
  Claim C7. The 128-bit digest of the empty sequence is exactly the 128-bit hash of the
  integer zero.
\<close>

theorem hash128_vec_empty:
  "hash128_vec X [] = hash128_size_t X 0"
  by (simp add: hash128_vec_def size_vec_def)

text \<open>
  Claim C8. For a single value, \<open>hash128\<close> returns the value's own 128-bit digest and
  \<open>hash64\<close> the value's own 64-bit digest, both unchanged.
\<close>

theorem hash_value_pass_through:
  "hash128 X v = ft_hash128 X v \<and> hash64 X v = ft_hash X v"
  by (simp add: hash128_def hash64_def)

section \<open>Properties of the arithmetic on \<^verbatim>\<open>double\<close>\<close>

subsection \<open>The fields\<close>

lemma unat_fraction_less: "unat (fraction d) < 2 ^ 52"
  using unsigned_less [of "fraction d", where 'a = nat] by simp

lemma significand_less: "significand d < 2 ^ 53"
  using unat_fraction_less [of d] by (simp add: significand_def)

lemma significand_normal: "biased_exp d \<noteq> 0 \<Longrightarrow> 2 ^ 52 \<le> significand d"
  by (simp add: significand_def)

lemma exponent_subnormal: "biased_exp d = 0 \<Longrightarrow> exponent d = - 1074"
  by (simp add: exponent_def)

lemma uint_biased_exp_pos: "biased_exp d \<noteq> 0 \<Longrightarrow> 1 \<le> uint (biased_exp d)"
  using uint_0_iff [of "biased_exp d"] uint_ge_0 [of "biased_exp d"] by linarith

lemma exponent_lower: "- 1074 \<le> exponent d"
  using uint_biased_exp_pos [of d] by (simp add: exponent_def)

lemma order_key_valof: "real_of_int (order_key d) = valof d * 2 ^ 1074"
proof -
  have "0 \<le> exponent d + 1074"
    using exponent_lower [of d] by simp
  then have "(2::real) ^ nat (exponent d + 1074) = 2 powi (exponent d + 1074)"
    by (simp add: power_int_def)
  also have "\<dots> = 2 powi exponent d * 2 ^ 1074"
    by (simp add: power_int_add)
  finally show ?thesis
    by (simp add: order_key_def valof_def)
qed

subsection \<open>Rounding a number that is a \<^verbatim>\<open>double\<close>\<close>

lemma bitlen_normal:
  assumes "2 ^ 52 \<le> m" "m < 2 ^ 53"
  shows "bitlen (int m) = 53"
proof -
  have "bitlen (int m) \<le> 53"
    using assms(2) by (simp add: bitlen_le_iff_power)
  moreover have "53 \<le> bitlen (int m)"
    using assms(1) by (simp add: bitlen_ge_iff_power)
  ultimately show ?thesis by simp
qed

lemma bitlen_subnormal:
  assumes "m < 2 ^ 52"
  shows "bitlen (int m) \<le> 52"
  using assms by (simp add: bitlen_le_iff_power)

lemma round_half_even_exact: "0 < k \<Longrightarrow> round_half_even (m * 2 ^ k) k = m"
  by (simp add: round_half_even_def)

text \<open>Packing a canonical significand and exponent.\<close>

lemma pack_fields:
  fixes m :: nat and q :: int and s :: bool
  assumes m: "m < 2 ^ 53" and c: "2 ^ 52 \<le> m \<or> q = - 1074" and q: "- 1074 \<le> q" "q \<le> 971"
  defines "b \<equiv> nat (q + 1074) * 2 ^ 52 + m"
  defines "d \<equiv> Double s (word_of_nat (b div 2 ^ 52)) (word_of_nat (b mod 2 ^ 52))"
  shows "b < 2047 * 2 ^ 52" and "is_finite d" and "significand d = m" and "exponent d = q"
    and "sign_bit d = s"
proof -
  have "nat (q + 1074) \<le> 2045"
    using q by simp
  then have "nat (q + 1074) * 2 ^ 52 \<le> 2045 * (2 ^ 52 :: nat)"
    by (rule mult_le_mono1)
  with m show "b < 2047 * 2 ^ 52"
    by (simp add: b_def)
  show "sign_bit d = s"
    by (simp add: d_def)
  show "is_finite d" and "significand d = m" and "exponent d = q"
  proof -
    consider (sub) "m < 2 ^ 52" | (norm) "2 ^ 52 \<le> m"
      by linarith
    then have "is_finite d \<and> significand d = m \<and> exponent d = q"
    proof cases
      case sub
      with c have "q = - 1074" by simp
      with sub have "b = m" by (simp add: b_def)
      with sub have "b div 2 ^ 52 = 0" "b mod 2 ^ 52 = m" by simp_all
      moreover have "unat (word_of_nat m :: 52 word) = m"
        using sub by (simp add: unat_of_nat)
      ultimately show ?thesis
        using \<open>q = - 1074\<close>
        by (simp add: d_def is_finite_def significand_def exponent_def)
    next
      case norm
      define E where "E = nat (q + 1075)"
      define F where "F = m - 2 ^ 52"
      have E: "1 \<le> E" "E \<le> 2046" "int E = q + 1075"
        using q by (simp_all add: E_def)
      have F: "F < 2 ^ 52" "2 ^ 52 + F = m"
        using m norm by (simp_all add: F_def)
      have "b = E * 2 ^ 52 + F"
        using norm q by (simp add: b_def E_def F_def nat_add_distrib algebra_simps)
      with F(1) have "b div 2 ^ 52 = E" "b mod 2 ^ 52 = F"
        by simp_all
      then have d: "d = Double s (word_of_nat E) (word_of_nat F)"
        by (simp only: d_def)
      have uE: "unat (word_of_nat E :: 11 word) = E"
        using E by (simp add: unat_of_nat)
      then have uiE: "uint (word_of_nat E :: 11 word) = int E"
        by (metis uint_nat)
      have uF: "unat (word_of_nat F :: 52 word) = F"
        using F(1) by (simp add: unat_of_nat)
      have n0: "(word_of_nat E :: 11 word) \<noteq> 0"
      proof
        assume "(word_of_nat E :: 11 word) = 0"
        then have "unat (word_of_nat E :: 11 word) = 0" by simp
        with uE E show False by simp
      qed
      have n2047: "(word_of_nat E :: 11 word) \<noteq> 2047"
      proof
        assume "(word_of_nat E :: 11 word) = 2047"
        then have "unat (word_of_nat E :: 11 word) = 2047" by simp
        with uE E show False by simp
      qed
      show ?thesis
        using n0 n2047 uiE uF E(3) F(2)
        by (simp add: d is_finite_def significand_def exponent_def)
    qed
    then show "is_finite d" and "significand d = m" and "exponent d = q"
      by simp_all
  qed
qed

lemma round_to_double_canonical:
  fixes m k :: nat and q :: int and s :: bool
  assumes pos: "0 < m" and m: "m < 2 ^ 53" and c: "2 ^ 52 \<le> m \<or> q = - 1074"
    and q: "- 1074 \<le> q" "q \<le> 971"
  defines "d \<equiv> round_to_double s (m * 2 ^ k) (q - int k)"
  shows "is_finite d \<and> significand d = m \<and> exponent d = q \<and> sign_bit d = s"
proof -
  have bl: "bitlen (int (m * 2 ^ k)) = bitlen (int m) + int k"
    using pos bitlen_pow2 [of "int m" k] by simp
  have mx: "max (q - int k + bitlen (int (m * 2 ^ k)) - 53) (- 1074) = q"
  proof (cases "2 ^ 52 \<le> m")
    case True
    then have "bitlen (int m) = 53" using m by (rule bitlen_normal)
    with q show ?thesis unfolding bl by simp
  next
    case False
    then have "bitlen (int m) \<le> 52" by (simp add: bitlen_subnormal)
    moreover from False c have "q = - 1074" by simp
    ultimately show ?thesis unfolding bl by simp
  qed
  have rnd: "(if q \<le> q - int k then m * 2 ^ k * 2 ^ nat (q - int k - q)
       else round_half_even (m * 2 ^ k) (nat (q - (q - int k)))) = m"
    by (cases "k = 0") (simp_all add: round_half_even_exact)
  define b where "b = nat (q + 1074) * 2 ^ 52 + m"
  have nz: "m * 2 ^ k \<noteq> 0"
    using pos by simp
  have "d = (if 2047 * 2 ^ 52 \<le> b then infinity s
       else Double s (word_of_nat (b div 2 ^ 52)) (word_of_nat (b mod 2 ^ 52)))"
    unfolding d_def round_to_double_def Let_def mx rnd b_def using nz by simp
  moreover have "b < 2047 * 2 ^ 52"
    unfolding b_def using m c q by (rule pack_fields(1))
  ultimately have "d = Double s (word_of_nat (b div 2 ^ 52)) (word_of_nat (b mod 2 ^ 52))"
    by simp
  then show ?thesis
    unfolding b_def
    using pack_fields(2-5) [OF m c q, of s] by simp
qed

lemma round_to_double_zero: "round_to_double s 0 e = Double s 0 0"
  by (simp add: round_to_double_def)

lemma valof_zero_significand: "significand d = 0 \<Longrightarrow> valof d = 0"
  by (simp add: valof_def)

lemma trunc_magnitude:
  fixes m :: nat and e :: int
  shows "int (if 0 \<le> e then m * 2 ^ nat e else m div 2 ^ nat (- e)) = \<lfloor>real m * 2 powi e\<rfloor>"
proof (cases "0 \<le> e")
  case True
  then have "real m * 2 powi e = real (m * 2 ^ nat e)"
    by (simp add: power_int_def)
  then show ?thesis
    using True by (simp only: floor_of_nat if_True)
next
  case False
  then have "real m * 2 powi e = real m / real (2 ^ nat (- e))"
    by (simp add: power_int_def field_simps)
  then show ?thesis
    using False by (simp only: floor_divide_of_nat_eq if_False)
qed

subsection \<open>Conversion to \<^verbatim>\<open>uint64_t\<close>\<close>

lemma valof_nonneg_cases:
  assumes "0 \<le> valof d"
  shows "significand d = 0 \<or> \<not> sign_bit d"
proof (rule ccontr)
  assume "\<not> (significand d = 0 \<or> \<not> sign_bit d)"
  then have m0: "0 < real (significand d)" and s: "sign_bit d" by simp_all
  have "(0::real) < 2 powi exponent d" by simp
  with m0 have "0 < real (significand d) * 2 powi exponent d"
    by (rule mult_pos_pos)
  with s have "valof d < 0" by (simp add: valof_def)
  with assms show False by simp
qed

lemma valof_unsigned: "\<not> sign_bit d \<Longrightarrow> valof d = real (significand d) * 2 powi exponent d"
  by (simp add: valof_def)

lemma uint64_of_double_valof:
  assumes fin: "is_finite d" and lo: "0 \<le> valof d" and hi: "valof d < 2 ^ 64"
  shows "uint64_of_double d = Some (word_of_int \<lfloor>valof d\<rfloor>)"
proof -
  define k where "k = (if 0 \<le> exponent d then significand d * 2 ^ nat (exponent d)
      else significand d div 2 ^ nat (- exponent d))"
  have k: "int k = \<lfloor>real (significand d) * 2 powi exponent d\<rfloor>"
    unfolding k_def by (rule trunc_magnitude)
  have u: "uint64_of_double d =
      (if k = 0 then Some 0 else if sign_bit d \<or> 2 ^ 64 \<le> k then None else Some (word_of_nat k))"
    using fin by (simp add: uint64_of_double_def k_def)
  show ?thesis
  proof (cases "significand d = 0")
    case zero: True
    then have "k = 0" by (simp add: k_def)
    moreover from zero have "valof d = 0" by (rule valof_zero_significand)
    ultimately show ?thesis by (simp add: u)
  next
    case False
    with valof_nonneg_cases [OF lo] have pos: "\<not> sign_bit d" by simp
    then have v: "\<lfloor>valof d\<rfloor> = int k"
      by (simp add: valof_unsigned k)
    have "\<lfloor>valof d\<rfloor> < 2 ^ 64"
      using hi by (simp add: floor_less_iff)
    with v have "k < 2 ^ 64" by simp
    with pos show ?thesis by (simp add: u v)
  qed
qed

subsection \<open>Multiplication by \<open>2 ^ 63\<close>\<close>

lemma bitlen_numeral: "bitlen (numeral n) = bitlen (numeral n div 2) + 1"
  by (subst compute_bitlen) simp

lemma bitlen_one: "bitlen 1 = 1"
  by (subst compute_bitlen) simp

lemma two63: "double_of_uint64 (push_bit 63 1) = Double False 1086 0"
  by (simp add: double_of_uint64_def round_to_double_def round_half_even_def
      bitlen_numeral bitlen_one)

lemma two63_fields:
  "\<not> is_nan (Double False 1086 0)" "\<not> is_inf (Double False 1086 0)"
  "significand (Double False 1086 0) = 2 ^ 52" "exponent (Double False 1086 0) = 11"
  "\<not> sign_bit (Double False 1086 0)"
  by (simp_all add: is_nan_def is_inf_def significand_def exponent_def)

lemma finite_not_special: "is_finite d \<Longrightarrow> \<not> is_nan d \<and> \<not> is_inf d"
  by (simp add: is_finite_def is_nan_def is_inf_def)

lemma double_mul_two63:
  assumes "is_finite p"
  shows "double_mul p (double_of_uint64 (push_bit 63 1)) =
     round_to_double (sign_bit p) (significand p * 2 ^ 52) (exponent p + 11)"
  using finite_not_special [OF assms]
  unfolding double_mul_def two63 Let_def
  by (simp add: two63_fields)

lemma leading_bit:
  fixes m :: nat
  assumes "0 < m" "m < 2 ^ 53"
  obtains a where "a \<le> 52" "2 ^ a \<le> m" "m < 2 ^ Suc a"
proof -
  define L where "L = bitlen (int m)"
  have b: "2 ^ nat (L - 1) \<le> int m" "int m < 2 ^ nat L"
    using bitlen_bounds [of "int m"] assms(1) by (simp_all add: L_def)
  have "L \<le> 53"
    using assms(2) by (simp add: L_def bitlen_le_iff_power)
  moreover have "1 \<le> L"
    using assms(1) by (simp add: L_def bitlen_ge_iff_power)
  ultimately have "nat (L - 1) \<le> 52" "nat L = Suc (nat (L - 1))"
    by simp_all
  moreover have "2 ^ nat (L - 1) \<le> m"
    using b(1) by (metis of_nat_le_iff of_nat_numeral of_nat_power)
  moreover have "m < 2 ^ nat L"
    using b(2) by (metis of_nat_less_iff of_nat_numeral of_nat_power)
  ultimately show thesis
    using that [of "nat (L - 1)"] by simp
qed

lemma power_int_le_one_exponent:
  fixes x :: int
  assumes "(2::real) powi x \<le> 1"
  shows "x \<le> 0"
proof (rule ccontr)
  assume "\<not> x \<le> 0"
  then have "1 \<le> x" by simp
  then have "(2::real) powi 1 \<le> 2 powi x"
    by (intro power_int_increasing) simp_all
  with assms show False by simp
qed

lemma scale_exact:
  assumes u: "in_unit_interval p"
  defines "y \<equiv> double_mul p (double_of_uint64 (push_bit 63 1))"
  shows "is_finite y \<and> valof y = valof p * 2 ^ 63"
proof -
  from u have fin: "is_finite p" and lo: "0 \<le> valof p" and hi: "valof p \<le> 1"
    by (simp_all add: in_unit_interval_def)
  define m where "m = significand p"
  define e where "e = exponent p"
  have y: "y = round_to_double (sign_bit p) (m * 2 ^ 52) (e + 11)"
    unfolding y_def m_def e_def using fin by (rule double_mul_two63)
  show ?thesis
  proof (cases "m = 0")
    case True
    then have "y = Double (sign_bit p) 0 0"
      by (simp add: y round_to_double_zero)
    then have "is_finite y" "valof y = 0"
      by (simp_all add: is_finite_def valof_def significand_def)
    moreover from True have "valof p = 0"
      unfolding m_def by (rule valof_zero_significand)
    ultimately show ?thesis by simp
  next
    case False
    then have pos: "0 < m" by simp
    from False valof_nonneg_cases [OF lo] have ns: "\<not> sign_bit p"
      by (simp add: m_def)
    then have vp: "valof p = real m * 2 powi e"
      by (simp add: valof_unsigned m_def e_def)
    have "m < 2 ^ 53"
      unfolding m_def by (rule significand_less)
    with pos obtain a where a: "a \<le> 52" "2 ^ a \<le> m" "m < 2 ^ Suc a"
      by (rule leading_bit)
    define m' where "m' = m * 2 ^ (52 - a)"
    define q where "q = e + 11 + int a"
    have "52 - a + a = 52"
      using a(1) by simp
    then have split: "(2::nat) ^ 52 = 2 ^ (52 - a) * 2 ^ a"
      by (simp only: flip: power_add)
    have mm: "m * 2 ^ 52 = m' * 2 ^ a"
      by (simp only: m'_def split mult.assoc)
    have ee: "e + 11 = q - int a"
      by (simp add: q_def)
    have "2 ^ a * 2 ^ (52 - a) \<le> m * 2 ^ (52 - a)"
      using a(2) by (rule mult_le_mono1)
    then have lo': "2 ^ 52 \<le> m'"
      by (simp only: m'_def split mult.commute)
    have "m * 2 ^ (52 - a) < 2 ^ Suc a * 2 ^ (52 - a)"
      using a(3) by simp
    also have "\<dots> = 2 ^ (Suc a + (52 - a))"
      by (simp only: power_add)
    also have "Suc a + (52 - a) = 53"
      using a(1) by simp
    finally have hi': "m' < 2 ^ 53"
      by (simp add: m'_def)
    from lo' have pos': "0 < m'" by simp
    have "real (2 ^ a) \<le> real m"
      using a(2) by (simp only: of_nat_le_iff)
    then have "(2::real) ^ a \<le> real m"
      by simp
    then have "(2::real) ^ a * 2 powi e \<le> real m * 2 powi e"
      by (rule mult_right_mono) simp
    also have "\<dots> \<le> 1"
      using hi vp by simp
    finally have "(2::real) ^ a * 2 powi e \<le> 1" .
    moreover have "(2::real) powi (int a + e) = 2 ^ a * 2 powi e"
      by (simp add: power_int_add)
    ultimately have "(2::real) powi (int a + e) \<le> 1"
      by simp
    then have "int a + e \<le> 0"
      by (rule power_int_le_one_exponent)
    then have q_hi: "q \<le> 971"
      by (simp add: q_def)
    have q_lo: "- 1074 \<le> q"
      using exponent_lower [of p] by (simp add: q_def e_def)
    have r: "is_finite y \<and> significand y = m' \<and> exponent y = q \<and> sign_bit y = sign_bit p"
      unfolding y mm ee
      using pos' hi' _ q_lo q_hi by (rule round_to_double_canonical) (use lo' in simp)
    with ns have "valof y = real m' * 2 powi q"
      by (simp add: valof_unsigned)
    also have "\<dots> = real m * (2 ^ (52 - a) * 2 powi (e + 11 + int a))"
      by (simp add: m'_def q_def)
    also have "(2::real) ^ (52 - a) = 2 powi (52 - int a)"
      using a(1) by (simp add: power_int_def nat_diff_distrib)
    also have "(2::real) powi (52 - int a) * 2 powi (e + 11 + int a) =
        2 powi (52 - int a + (e + 11 + int a))"
      by (rule power_int_add [symmetric]) simp
    also have "52 - int a + (e + 11 + int a) = e + 63"
      by simp
    also have "(2::real) powi (e + 63) = 2 powi e * 2 powi 63"
      by (rule power_int_add) simp
    finally have "valof y = valof p * 2 ^ 63"
      by (simp add: vp)
    with r show ?thesis by simp
  qed
qed

subsection \<open>The two assertions\<close>

lemma order_key_d_0_0: "order_key d_0_0 = 0"
  by (simp add: order_key_def d_0_0_def significand_def)

lemma order_key_d_1_0: "order_key d_1_0 = 2 ^ 1074"
proof -
  have "(2::int) ^ 52 * 2 ^ 1022 = 2 ^ (52 + 1022)"
    by (simp only: power_add)
  then show ?thesis
    by (simp add: order_key_def d_1_0_def significand_def exponent_def)
qed

lemma not_nan_consts: "\<not> is_nan d_0_0" "\<not> is_nan d_1_0"
  by (simp_all add: is_nan_def d_0_0_def d_1_0_def)

lemma order_key_nonneg_iff: "0 \<le> order_key d \<longleftrightarrow> 0 \<le> valof d"
proof -
  have "0 \<le> order_key d \<longleftrightarrow> 0 \<le> real_of_int (order_key d)"
    by simp
  also have "\<dots> \<longleftrightarrow> 0 \<le> valof d * 2 ^ 1074"
    by (simp only: order_key_valof)
  also have "\<dots> \<longleftrightarrow> 0 \<le> valof d"
    by (simp add: zero_le_mult_iff)
  finally show ?thesis .
qed

lemma order_key_le_one_iff: "order_key d \<le> 2 ^ 1074 \<longleftrightarrow> valof d \<le> 1"
proof -
  have "order_key d \<le> 2 ^ 1074 \<longleftrightarrow> real_of_int (order_key d) \<le> real_of_int (2 ^ 1074)"
    by (simp only: of_int_le_iff)
  also have "\<dots> \<longleftrightarrow> valof d * 2 ^ 1074 \<le> 1 * 2 ^ 1074"
    by (simp only: order_key_valof) simp
  also have "\<dots> \<longleftrightarrow> valof d \<le> 1"
    by (rule mult_le_cancel_right_pos) simp
  finally show ?thesis .
qed

lemma valof_inf: "is_inf d \<Longrightarrow> valof d = (if sign_bit d then - 1 else 1) * 2 ^ 1024"
proof -
  assume "is_inf d"
  then have "significand d = 2 ^ 52" "exponent d = 972"
    by (simp_all add: is_inf_def significand_def exponent_def)
  moreover have "(2::real) ^ 52 * 2 ^ 972 = 2 ^ (52 + 972)"
    by (simp only: power_add)
  ultimately show ?thesis
    by (simp add: valof_def)
qed

lemma class_cases: "is_finite d \<or> is_inf d \<or> is_nan d"
  by (auto simp add: is_finite_def is_inf_def is_nan_def)

lemma finite_unit_interval:
  assumes "\<not> is_nan d" "0 \<le> valof d" "valof d \<le> 1"
  shows "is_finite d"
proof (rule ccontr)
  assume "\<not> is_finite d"
  with assms(1) class_cases [of d] have "is_inf d" by simp
  then have v: "valof d = (if sign_bit d then - 1 else 1) * 2 ^ 1024"
    by (rule valof_inf)
  show False
  proof (cases "sign_bit d")
    case True
    with v assms(2) show False by simp
  next
    case False
    with v assms(3) show False by simp
  qed
qed

lemma assertions_pass_iff:
  "double_ge p d_0_0 \<and> double_le p d_1_0 \<longleftrightarrow> in_unit_interval p"
proof
  assume "double_ge p d_0_0 \<and> double_le p d_1_0"
  then have n: "\<not> is_nan p" and a: "0 \<le> order_key p" and b: "order_key p \<le> 2 ^ 1074"
    by (simp_all add: double_ge_def double_le_def order_key_d_0_0 order_key_d_1_0)
  from a have "0 \<le> valof p"
    by (simp only: order_key_nonneg_iff)
  moreover from b have "valof p \<le> 1"
    by (simp only: order_key_le_one_iff)
  ultimately show "in_unit_interval p"
    using n by (simp add: in_unit_interval_def finite_unit_interval)
next
  assume "in_unit_interval p"
  then have f: "is_finite p" and a: "0 \<le> valof p" and b: "valof p \<le> 1"
    by (simp_all add: in_unit_interval_def)
  from a have "0 \<le> order_key p"
    by (simp only: order_key_nonneg_iff)
  moreover from b have "order_key p \<le> 2 ^ 1074"
    by (simp only: order_key_le_one_iff)
  moreover from f have "\<not> is_nan p"
    by (simp add: finite_not_special)
  ultimately show "double_ge p d_0_0 \<and> double_le p d_1_0"
    by (simp add: double_ge_def double_le_def order_key_d_0_0 order_key_d_1_0 not_nan_consts)
qed

lemma x_half_in_unit:
  assumes "in_unit_interval p"
  shows "uint64_of_double (double_mul p (double_of_uint64 (push_bit 63 1))) =
     Some (word_of_int \<lfloor>valof p * 2 ^ 63\<rfloor>)"
proof -
  define y where "y = double_mul p (double_of_uint64 (push_bit 63 1))"
  have y: "is_finite y" "valof y = valof p * 2 ^ 63"
    using scale_exact [OF assms] by (simp_all add: y_def)
  from assms have "0 \<le> valof p" "valof p \<le> 1"
    by (simp_all add: in_unit_interval_def)
  then have "0 \<le> valof y" "valof y < 2 ^ 64"
    by (simp_all add: y)
  with y(1) have "uint64_of_double y = Some (word_of_int \<lfloor>valof y\<rfloor>)"
    by (rule uint64_of_double_valof)
  then show ?thesis
    by (simp only: y(2)) (simp only: y_def)
qed

lemma cutoff_in_unit:
  assumes "in_unit_interval p"
  shows "hash64_proportion_cutoff dassert p = Inr (clipped_sum (word_of_int \<lfloor>valof p * 2 ^ 63\<rfloor>))"
proof -
  from assms have "double_ge p d_0_0" "double_le p d_1_0"
    by (simp_all add: assertions_pass_iff [symmetric])
  then show ?thesis
    unfolding hash64_proportion_cutoff_def x_half_in_unit [OF assms]
    by (simp add: DASSERT_GE_def DASSERT_LE_def)
qed

subsection \<open>Evaluation\<close>

lemmas double_eval =
  double_of_uint64_def round_to_double_def round_half_even_def bitlen_numeral bitlen_one
  double_mul_def uint64_of_double_def double_le_def double_ge_def order_key_def
  is_nan_def is_inf_def is_finite_def significand_def exponent_def
  infinity_def quiet_nan_def d_0_0_def d_1_0_def DASSERT_GE_def DASSERT_LE_def

text \<open>
  The model against products and conversions computed by a processor:
  \<open>1.1 * 1.1\<close> is \<^verbatim>\<open>0x3FF35C28F5C28F5D\<close> and \<open>- 0.1 * 1.1\<close> is
  \<^verbatim>\<open>0xBFBC28F5C28F5C2A\<close>, both rounded; three times the smallest subnormal number,
  halved, is a tie and goes to twice that number; the largest \<^verbatim>\<open>uint64_t\<close> converts to
  \<open>2 ^ 64\<close>; a product beyond the largest finite number is an infinity.
\<close>

lemma double_mul_examples:
  "double_mul d_1_1 d_1_1 = Double False 1023 0x35C28F5C28F5D"
  "double_mul d_minus_0_1 d_1_1 = Double True 1019 0xC28F5C28F5C2A"
  "double_mul (Double False 0 3) (Double False 1022 0) = Double False 0 2"
  "double_mul (Double False 2046 5) (Double True 1026 0) = Double True 2047 0"
  by (simp_all add: double_eval d_1_1_def d_minus_0_1_def)

lemma double_of_uint64_examples:
  "double_of_uint64 0 = d_0_0"
  "double_of_uint64 1 = d_1_0"
  "double_of_uint64 18446744073709551615 = Double False 1087 0"
  "double_of_uint64 9007199254740993 = Double False 1076 0"
  "double_of_uint64 9007199254740995 = Double False 1076 2"
  by (simp_all add: double_eval)

lemma valof_tenths:
  "valof d_minus_0_1 = - (3602879701896397 / 36028797018963968)"
  "valof d_0_1 = 3602879701896397 / 36028797018963968"
  "valof d_1_1 = 2476979795053773 / 2251799813685248"
  by (simp_all add: valof_def d_minus_0_1_def d_0_1_def d_1_1_def significand_def exponent_def)

lemma valof_quarters: "valof d_0_25 = 1 / 4" "valof d_0_75 = 3 / 4"
  by (simp_all add: valof_def d_0_25_def d_0_75_def significand_def exponent_def)



lemma unit_d_0_1: "in_unit_interval d_0_1"
  by (simp add: in_unit_interval_def valof_tenths) (simp add: is_finite_def d_0_1_def)

lemma unit_d_0_25: "in_unit_interval d_0_25"
  by (simp add: in_unit_interval_def valof_quarters) (simp add: is_finite_def d_0_25_def)

lemma unit_d_0_75: "in_unit_interval d_0_75"
  by (simp add: in_unit_interval_def valof_quarters) (simp add: is_finite_def d_0_75_def)

lemma spec_x_half_d_0_1: "spec_x_half d_0_1 = 922337203685477632"
  by (simp add: spec_x_half_def valof_tenths)

lemma cutoff_quarters:
  "hash64_proportion_cutoff dassert d_0_25 = Inr 4611686018427387904"
  "hash64_proportion_cutoff dassert d_0_75 = Inr 13835058055282163712"
  by (simp_all add: hash64_proportion_cutoff_def double_eval clipped_sum_def clip_0_def clip_1_def
      d_0_25_def d_0_75_def)

section \<open>The clipped sum\<close>

lemma unat_clip_0: "unat clip_0 = 2 ^ 63"
  by (simp add: clip_0_def)

lemma unat_clip_1: "unat clip_1 = 2 ^ 63 - 1"
  by (simp add: clip_1_def clip_0_def)

lemma unat_min_word: "unat (min a b) = min (unat a) (unat b)"
  by (simp add: min_def word_le_nat_alt)

lemma unat_clipped_sum:
  "unat (clipped_sum x_half) = min (2 ^ 63) (unat x_half) + min (2 ^ 63 - 1) (unat x_half)"
proof -
  have "unat (min clip_0 x_half) + unat (min clip_1 x_half) < 2 ^ LENGTH(64)"
    by (simp add: unat_min_word unat_clip_0 unat_clip_1)
  then have "unat (min clip_0 x_half + min clip_1 x_half) =
      unat (min clip_0 x_half) + unat (min clip_1 x_half)"
    by (rule unat_add_lem [THEN iffD1])
  then show ?thesis
    by (simp add: clipped_sum_def unat_min_word unat_clip_0 unat_clip_1)
qed

lemma clipped_sum_mono: "x \<le> y \<Longrightarrow> clipped_sum x \<le> clipped_sum y"
  by (simp add: word_le_nat_alt unat_clipped_sum)

text \<open>
  Claim C9. Whatever 64-bit value \<open>x_half\<close> has, the two clipped halves add up to at
  most \<open>2 ^ 63 + (2 ^ 63 - 1) = 2 ^ 64 - 1\<close>, so the unsigned addition of the return
  statement does not wrap: its result is the sum of the two halves as natural numbers.
\<close>

theorem clipped_sum_no_wrap:
  "unat (min clip_0 x_half) + unat (min clip_1 x_half) \<le> 2 ^ 64 - 1 \<and>
   unat (clipped_sum x_half) = unat (min clip_0 x_half) + unat (min clip_1 x_half)"
proof -
  have a: "unat (min clip_0 x_half) \<le> 2 ^ 63"
    by (simp add: unat_min_word unat_clip_0)
  have b: "unat (min clip_1 x_half) \<le> 2 ^ 63 - 1"
    by (simp add: unat_min_word unat_clip_1)
  from a b have le: "unat (min clip_0 x_half) + unat (min clip_1 x_half) \<le> 2 ^ 64 - 1"
    by simp
  then have "unat (min clip_0 x_half) + unat (min clip_1 x_half) < 2 ^ LENGTH(64)"
    by simp
  then have "unat (min clip_0 x_half + min clip_1 x_half) =
      unat (min clip_0 x_half) + unat (min clip_1 x_half)"
    by (rule unat_add_lem [THEN iffD1])
  with le show ?thesis
    by (simp add: clipped_sum_def)
qed

section \<open>Properties of \<^verbatim>\<open>hash64_proportion_cutoff\<close>\<close>

lemma floor_scaled_bounds:
  assumes "in_unit_interval p"
  shows "0 \<le> \<lfloor>valof p * 2 ^ 63\<rfloor>" "\<lfloor>valof p * 2 ^ 63\<rfloor> \<le> 2 ^ 63"
proof -
  from assms have v: "0 \<le> valof p" "valof p \<le> 1"
    by (simp_all add: in_unit_interval_def)
  from v(1) show "0 \<le> \<lfloor>valof p * 2 ^ 63\<rfloor>"
    by simp
  from v(2) have "valof p * 2 ^ 63 \<le> 1 * 2 ^ 63"
    by (intro mult_right_mono) simp_all
  then have "\<lfloor>valof p * 2 ^ 63\<rfloor> \<le> \<lfloor>(2::real) ^ 63\<rfloor>"
    by (intro floor_mono) simp
  then show "\<lfloor>valof p * 2 ^ 63\<rfloor> \<le> 2 ^ 63"
    by simp
qed

lemma unat_spec_x_half:
  assumes "in_unit_interval p"
  shows "unat (spec_x_half p) = nat \<lfloor>valof p * 2 ^ 63\<rfloor>"
    and "nat \<lfloor>valof p * 2 ^ 63\<rfloor> \<le> 2 ^ 63"
proof -
  define f where "f = \<lfloor>valof p * 2 ^ 63\<rfloor>"
  have f: "0 \<le> f" "f \<le> 2 ^ 63"
    unfolding f_def using assms by (rule floor_scaled_bounds)+
  then have "nat f < 2 ^ LENGTH(64)"
    by simp
  then have "unat (word_of_nat (nat f) :: uint64_t) = nat f"
    by (simp add: unat_of_nat)
  moreover have "(word_of_nat (nat f) :: uint64_t) = word_of_int f"
    using f(1) by simp
  ultimately have "unat (word_of_int f :: uint64_t) = nat f"
    by simp
  then show "unat (spec_x_half p) = nat \<lfloor>valof p * 2 ^ 63\<rfloor>"
    by (simp only: spec_x_half_def f_def)
  from f have "nat f \<le> 2 ^ 63"
    by simp
  then show "nat \<lfloor>valof p * 2 ^ 63\<rfloor> \<le> 2 ^ 63"
    by (simp only: f_def)
qed

lemma spec_x_half_mono:
  assumes "in_unit_interval p1" "in_unit_interval p2" "valof p1 \<le> valof p2"
  shows "spec_x_half p1 \<le> spec_x_half p2"
proof -
  from assms(3) have "valof p1 * 2 ^ 63 \<le> valof p2 * 2 ^ 63"
    by simp
  then have "\<lfloor>valof p1 * 2 ^ 63\<rfloor> \<le> \<lfloor>valof p2 * 2 ^ 63\<rfloor>"
    by (rule floor_mono)
  then show ?thesis
    by (simp add: word_le_nat_alt unat_spec_x_half(1) assms(1,2) nat_mono)
qed

lemma cutoff_unit: 
  "in_unit_interval p \<Longrightarrow> hash64_proportion_cutoff dassert p = Inr (clipped_sum (spec_x_half p))"
  by (simp add: cutoff_in_unit spec_x_half_def)


text \<open>
  Claim C1. The cutoff is exact at both ends: for the proportion \<open>0.0\<close> it is \<open>0\<close>,
  and for the proportion \<open>1.0\<close> it is \<open>2 ^ 64 - 1\<close>, the largest \<^verbatim>\<open>uint64_t\<close>,
  with the debug assertions checked or not.
\<close>

theorem cutoff_boundaries:
  "hash64_proportion_cutoff dassert d_0_0 = Inr 0 \<and>
   hash64_proportion_cutoff dassert d_1_0 = Inr 18446744073709551615 \<and>
   valof d_0_0 = 0 \<and> valof d_1_0 = 1"
  by (simp add: hash64_proportion_cutoff_def double_eval clipped_sum_def clip_0_def clip_1_def
      valof_def)




text \<open>
  In a build that does not check the debug assertions, the call with \<open>- 0.1\<close> reaches
  the conversion of a negative product to \<^verbatim>\<open>uint64_t\<close>, whose behaviour C++ leaves
  undefined.
\<close>

lemma cutoff_unchecked_d_minus_0_1:
  "hash64_proportion_cutoff False d_minus_0_1 = Inl (Undefined_conversion d_minus_0_1)"
  by (simp add: hash64_proportion_cutoff_def double_eval d_minus_0_1_def)

text \<open>
  Claim C3. For every proportion \<open>p\<close> in \<open>[0.0, 1.0]\<close> the cutoff is
  \<open>min clip_0 x_half + min clip_1 x_half\<close>, where \<open>x_half\<close> is the product of \<open>p\<close> and
  \<open>2 ^ 63\<close> truncated to an unsigned 64-bit integer, \<open>clip_0\<close> is \<open>2 ^ 63\<close>, and
  \<open>clip_1\<close> is the largest \<^verbatim>\<open>uint64_t\<close> minus \<open>clip_0\<close>, which is \<open>2 ^ 63 - 1\<close>.
\<close>

theorem cutoff_is_clipped_sum:
  assumes "in_unit_interval p"
  shows "hash64_proportion_cutoff dassert p =
      Inr (min clip_0 (spec_x_half p) + min clip_1 (spec_x_half p)) \<and>
    spec_x_half p = word_of_int \<lfloor>valof p * 2 ^ 63\<rfloor> \<and>
    unat clip_0 = 2 ^ 63 \<and> clip_1 = - 1 - clip_0 \<and> unat clip_1 = 2 ^ 63 - 1"
proof (intro conjI)
  show "hash64_proportion_cutoff dassert p =
      Inr (min clip_0 (spec_x_half p) + min clip_1 (spec_x_half p))"
    using assms by (simp add: cutoff_unit clipped_sum_def)
  show "spec_x_half p = word_of_int \<lfloor>valof p * 2 ^ 63\<rfloor>"
    by (rule spec_x_half_def)
  show "unat clip_0 = 2 ^ 63"
    by (rule unat_clip_0)
  show "clip_1 = - 1 - clip_0"
    by (rule clip_1_def)
  show "unat clip_1 = 2 ^ 63 - 1"
    by (rule unat_clip_1)
qed

theorem cutoff_is_clipped_sum_witness:
  "in_unit_interval d_0_1 \<and>
   hash64_proportion_cutoff True d_0_1 = Inr 1844674407370955264 \<and>
   spec_x_half d_0_1 = 922337203685477632"
  using cutoff_is_clipped_sum [OF unit_d_0_1, of True]
  by (simp add: unit_d_0_1 unit_d_0_25 unit_d_0_75 spec_x_half_d_0_1 clip_0_def clip_1_def)

text \<open>
  Claim C4. The cutoff is monotone: for proportions \<open>p1\<close> and \<open>p2\<close> with
  \<open>0 \<le> p1 < p2 \<le> 1\<close>, the cutoff of \<open>p1\<close> is at most the cutoff of \<open>p2\<close>.
\<close>

theorem cutoff_monotone:
  assumes "in_unit_interval p1" "in_unit_interval p2" "valof p1 < valof p2"
  shows "\<exists>c1 c2. hash64_proportion_cutoff dassert p1 = Inr c1 \<and>
     hash64_proportion_cutoff dassert p2 = Inr c2 \<and> c1 \<le> c2"
proof -
  from assms have "spec_x_half p1 \<le> spec_x_half p2"
    by (intro spec_x_half_mono) simp_all
  then have "clipped_sum (spec_x_half p1) \<le> clipped_sum (spec_x_half p2)"
    by (rule clipped_sum_mono)
  with assms(1,2) show ?thesis
    by (simp add: cutoff_unit)
qed

theorem cutoff_monotone_witness:
  "in_unit_interval d_0_25 \<and> in_unit_interval d_0_75 \<and> valof d_0_25 < valof d_0_75 \<and>
   hash64_proportion_cutoff True d_0_25 = Inr 4611686018427387904 \<and>
   hash64_proportion_cutoff True d_0_75 = Inr 13835058055282163712 \<and>
   (4611686018427387904 :: uint64_t) \<le> 13835058055282163712"
proof -
  have lt: "valof d_0_25 < valof d_0_75"
    by (simp add: valof_quarters)
  from cutoff_monotone [OF unit_d_0_25 unit_d_0_75 lt, of True] show ?thesis
    by (simp add: unit_d_0_1 unit_d_0_25 unit_d_0_75 lt cutoff_quarters)
qed

text \<open>
  Claim C10. For every proportion \<open>p\<close> in \<open>[0.0, 1.0]\<close> whose truncated product
  with \<open>2 ^ 63\<close> is at most \<open>2 ^ 63 - 1\<close>, the cutoff is exactly twice that product;
  hence every cutoff is an even number or the saturated result \<open>2 ^ 64 - 1\<close>: the
  cutoffs are \<open>2 ^ 63\<close> steps of two apart, not \<open>2 ^ 64\<close> steps of one.
\<close>

theorem cutoff_doubles_x_half:
  assumes "in_unit_interval p"
  shows "(\<lfloor>valof p * 2 ^ 63\<rfloor> \<le> 2 ^ 63 - 1 \<longrightarrow>
      (\<exists>c. hash64_proportion_cutoff dassert p = Inr c \<and> unat c = 2 * nat \<lfloor>valof p * 2 ^ 63\<rfloor>)) \<and>
    (\<exists>c. hash64_proportion_cutoff dassert p = Inr c \<and> (even (unat c) \<or> unat c = 2 ^ 64 - 1))"
proof -
  define f where "f = \<lfloor>valof p * 2 ^ 63\<rfloor>"
  define c where "c = clipped_sum (spec_x_half p)"
  have n: "unat (spec_x_half p) = nat f"
    unfolding f_def using assms by (rule unat_spec_x_half(1))
  have le: "nat f \<le> 2 ^ 63"
    unfolding f_def using assms by (rule unat_spec_x_half(2))
  have f0: "0 \<le> f"
    unfolding f_def using assms by (rule floor_scaled_bounds(1))
  have c: "hash64_proportion_cutoff dassert p = Inr c"
    unfolding c_def using assms by (rule cutoff_unit)
  have u: "unat c = min (2 ^ 63) (nat f) + min (2 ^ 63 - 1) (nat f)"
    by (simp add: c_def unat_clipped_sum n)
  have small: "unat c = 2 * nat f" if "f \<le> 2 ^ 63 - 1"
    using that by (simp add: u)
  have sat: "unat c = 2 ^ 64 - 1" if "\<not> f \<le> 2 ^ 63 - 1"
  proof -
    from that le have "nat f = 2 ^ 63" by simp
    then show ?thesis by (simp add: u)
  qed
  have "even (unat c) \<or> unat c = 2 ^ 64 - 1"
  proof (cases "f \<le> 2 ^ 63 - 1")
    case True
    then have "unat c = 2 * nat f" by (rule small)
    then show ?thesis by simp
  next
    case False
    then have "unat c = 2 ^ 64 - 1" by (rule sat)
    then show ?thesis by (rule disjI2)
  qed
  with c small have "(f \<le> 2 ^ 63 - 1 \<longrightarrow>
      (\<exists>c. hash64_proportion_cutoff dassert p = Inr c \<and> unat c = 2 * nat f)) \<and>
    (\<exists>c. hash64_proportion_cutoff dassert p = Inr c \<and> (even (unat c) \<or> unat c = 2 ^ 64 - 1))"
    by blast
  then show ?thesis
    unfolding f_def .
qed

theorem cutoff_doubles_x_half_witness:
  "in_unit_interval d_0_75 \<and> \<lfloor>valof d_0_75 * 2 ^ 63\<rfloor> = 6917529027641081856 \<and>
   (6917529027641081856 :: int) \<le> 2 ^ 63 - 1 \<and>
   hash64_proportion_cutoff True d_0_75 = Inr 13835058055282163712 \<and>
   unat (13835058055282163712 :: uint64_t) = 2 * 6917529027641081856 \<and>
   even (unat (13835058055282163712 :: uint64_t))"
proof -
  from cutoff_doubles_x_half [OF unit_d_0_75, of True] show ?thesis
    by (simp add: unit_d_0_1 unit_d_0_25 unit_d_0_75 valof_quarters cutoff_quarters)
qed

end
